theory Spec2Isabelle
  imports Main
begin

section \<open>Strings, outcomes and the random source\<close>

text \<open>
  A Go string, taken to be valid UTF-8, is modelled by the sequence of runes that
  \<^verbatim>\<open>for _, r := range s\<close> yields; a rune is its code point. String literals of the
  source are written with \<open>str\<close>.
  An \<^verbatim>\<open>error\<close> value is the text that its \<^verbatim>\<open>Error()\<close> method gives.
  A call either returns or panics; a call that never returns is the value \<open>None\<close> of
  an option around the outcome.
\<close>

type_synonym rune = nat
type_synonym gostring = "rune list"

definition str :: "string \<Rightarrow> gostring" where
  "str s = map of_char s"

datatype 'a outcome = Returns 'a | Panics gostring

text \<open>
  \<^verbatim>\<open>math/rand\<close>: the generator is a sequence of draws \<open>rnd\<close>, and the \<open>k\<close>-th call
  \<^verbatim>\<open>rand.Intn(n)\<close> yields a number in \<open>[0, n)\<close>. Every sequence of results in range
  arises from some \<open>rnd\<close>.
\<close>

definition Intn :: "(nat \<Rightarrow> nat) \<Rightarrow> nat \<Rightarrow> nat \<Rightarrow> nat" where
  "Intn rnd k n = rnd k mod n"

text \<open>The generator whose \<open>k\<close>-th draw is \<open>k\<close>: it walks through the pool in turn.\<close>

definition draws_in_turn :: "nat \<Rightarrow> nat" where
  "draws_in_turn k = k"

section \<open>Word selector\<close>

text \<open>\<^verbatim>\<open>func contains(words []string, word string) bool\<close>\<close>

fun contains :: "gostring list \<Rightarrow> gostring \<Rightarrow> bool" where
  "contains [] word = False"
| "contains (v # vs) word = (if v = word then True else contains vs word)"

text \<open>
  The \<^verbatim>\<open>for { ... }\<close> loop of \<^verbatim>\<open>PickRandomUniqueWords\<close>. \<open>k\<close> counts the draws made so
  far and \<open>randomWords\<close> is the slice being filled. \<^verbatim>\<open>rand.Intn(0)\<close> panics.
\<close>

partial_function (option) pick_loop ::
  "gostring list \<Rightarrow> int \<Rightarrow> gostring set \<Rightarrow> (nat \<Rightarrow> nat) \<Rightarrow> nat \<Rightarrow> gostring list
     \<Rightarrow> gostring list outcome option" where
  "pick_loop words n usedBefore rnd k randomWords =
    (if length words = 0 then Some (Panics (str ''invalid argument to Intn''))
     else if words ! Intn rnd k (length words) \<in> usedBefore
             \<or> contains randomWords (words ! Intn rnd k (length words))
          then pick_loop words n usedBefore rnd (Suc k) randomWords
     else if int (length (randomWords @ [words ! Intn rnd k (length words)])) = n
          then Some (Returns (randomWords @ [words ! Intn rnd k (length words)]))
     else pick_loop words n usedBefore rnd (Suc k)
            (randomWords @ [words ! Intn rnd k (length words)]))"

declare pick_loop.simps [code]

text \<open>
  \<^verbatim>\<open>func PickRandomUniqueWords(words []string, n int, usedBefore map[string]struct{}) []string\<close>.
  The map \<^verbatim>\<open>usedBefore\<close> is used as a set. The count \<open>n\<close> is only compared, never
  computed with, so the Go \<^verbatim>\<open>int\<close> is an integer here. \<^verbatim>\<open>make([]string, 0, n)\<close> panics at
  run time when \<open>n\<close> is negative.
\<close>

definition PickRandomUniqueWords ::
  "gostring list \<Rightarrow> int \<Rightarrow> gostring set \<Rightarrow> (nat \<Rightarrow> nat) \<Rightarrow> gostring list outcome option" where
  "PickRandomUniqueWords words n usedBefore rnd =
    (if n \<ge> int (length words) then Some (Returns words)
     else if n < 0 then Some (Panics (str ''makeslice: cap out of range''))
     else pick_loop words n usedBefore rnd 0 [])"

text \<open>The word that the \<open>j\<close>-th draw selects from the pool.\<close>

definition drawn :: "gostring list \<Rightarrow> (nat \<Rightarrow> nat) \<Rightarrow> nat \<Rightarrow> gostring" where
  "drawn words rnd j = words ! Intn rnd j (length words)"

text \<open>
  What a returning run of the loop has done, from any loop state: the result extends
  the slice it started from by the words of an increasing sequence of later draws, has
  \<open>n\<close> elements, and stays duplicate-free and disjoint from the used words.
\<close>

definition loop_post ::
  "gostring list \<Rightarrow> int \<Rightarrow> gostring set \<Rightarrow> (nat \<Rightarrow> nat) \<Rightarrow> nat \<Rightarrow> gostring list
     \<Rightarrow> gostring list outcome \<Rightarrow> bool" where
  "loop_post words n usedBefore rnd k randomWords r \<longleftrightarrow>
     (\<exists>out js. r = Returns out \<and> int (length out) = n \<and> distinct out
        \<and> set out \<inter> usedBefore = {} \<and> sorted_wrt (<) js \<and> js \<noteq> []
        \<and> (\<forall>j \<in> set js. k \<le> j) \<and> out = randomWords @ map (drawn words rnd) js)"

text \<open>
  A sequence of draws in which every index of the pool keeps coming back. Uniform
  independent draws are of this kind with probability one.
\<close>

definition recurrent :: "nat \<Rightarrow> (nat \<Rightarrow> nat) \<Rightarrow> bool" where
  "recurrent len rnd \<longleftrightarrow> (\<forall>i < len. \<forall>k. \<exists>j \<ge> k. Intn rnd j len = i)"

section \<open>Text extractor\<close>

text \<open>
  The tables of Go's \<^verbatim>\<open>unicode\<close> package are a parameter: \<^verbatim>\<open>unicode.IsLetter\<close>,
  \<^verbatim>\<open>unicode.IsSpace\<close> and \<^verbatim>\<open>unicode.ToLower\<close>.
\<close>

record unicode =
  IsLetter :: "rune \<Rightarrow> bool"
  IsSpace :: "rune \<Rightarrow> bool"
  ToLower :: "rune \<Rightarrow> rune"

text \<open>The tables on the ASCII range, every rune above it taken as a symbol.\<close>

definition ascii :: unicode where
  "ascii = \<lparr> IsLetter = (\<lambda>r. (65 \<le> r \<and> r \<le> 90) \<or> (97 \<le> r \<and> r \<le> 122)),
             IsSpace = (\<lambda>r. r = 9 \<or> r = 10 \<or> r = 11 \<or> r = 12 \<or> r = 13 \<or> r = 32),
             ToLower = (\<lambda>r. if 65 \<le> r \<and> r \<le> 90 then r + 32 else r) \<rparr>"

text \<open>
  \<^verbatim>\<open>html.Node\<close> of \<^verbatim>\<open>golang.org/x/net/html\<close>: the node type, the data (the text of a
  text node, the tag name of an element) and the children in sibling order.
\<close>

datatype NodeType =
  ErrorNode | TextNode | DocumentNode | ElementNode | CommentNode | DoctypeNode | RawNode

datatype Node = Node (Type: NodeType) (Data: gostring) (children: "Node list")

text \<open>
  \<^verbatim>\<open>func getText(n *html.Node) string\<close>: the builder receives the node's own data when it
  is a text node, then the text of each child.
\<close>

fun getText :: "Node \<Rightarrow> gostring" where
  "getText (Node ty d cs) =
     fold (\<lambda>c builder. builder @ getText c) cs (if ty = TextNode then d else [])"

text \<open>
  \<^verbatim>\<open>func RemovePunctuation(s string) string\<close>: the apostrophe is rune 39.
\<close>

definition RemovePunctuation :: "unicode \<Rightarrow> gostring \<Rightarrow> gostring" where
  "RemovePunctuation U s =
     fold (\<lambda>r builder. if IsLetter U r \<or> IsSpace U r \<or> r = 39
                        then builder @ [ToLower U r] else builder) s []"

text \<open>
  \<^verbatim>\<open>strings.Fields\<close>, which is \<^verbatim>\<open>strings.FieldsFunc(s, unicode.IsSpace)\<close>: one pass over
  the runes; \<open>start\<close> holds the field being read, if any, and a separator closes it.
\<close>

fun FieldsFunc_loop ::
  "(rune \<Rightarrow> bool) \<Rightarrow> gostring \<Rightarrow> gostring option \<Rightarrow> gostring list \<Rightarrow> gostring list" where
  "FieldsFunc_loop f [] None spans = spans"
| "FieldsFunc_loop f [] (Some field) spans = spans @ [field]"
| "FieldsFunc_loop f (r # rs) None spans =
     (if f r then FieldsFunc_loop f rs None spans
      else FieldsFunc_loop f rs (Some [r]) spans)"
| "FieldsFunc_loop f (r # rs) (Some field) spans =
     (if f r then FieldsFunc_loop f rs None (spans @ [field])
      else FieldsFunc_loop f rs (Some (field @ [r])) spans)"

definition Fields :: "unicode \<Rightarrow> gostring \<Rightarrow> gostring list" where
  "Fields U s = FieldsFunc_loop (IsSpace U) s None []"

text \<open>
  The closure \<^verbatim>\<open>traverse\<close> of \<^verbatim>\<open>ExtractWordsFromParagraphs\<close>; the captured slice
  \<^verbatim>\<open>words\<close> is passed through.
\<close>

fun traverse :: "unicode \<Rightarrow> Node \<Rightarrow> gostring list \<Rightarrow> gostring list" where
  "traverse U (Node ty d cs) words =
     fold (\<lambda>c ws. traverse U c ws) cs
       (if ty = ElementNode \<and> d = str ''p''
        then words @ Fields U (RemovePunctuation U (getText (Node ty d cs)))
        else words)"

text \<open>
  \<^verbatim>\<open>func ExtractWordsFromParagraphs(htmlContent string) ([]string, error)\<close>. The parser
  \<^verbatim>\<open>html.Parse\<close> is a parameter: it gives an error or the document node.
\<close>

definition ExtractWordsFromParagraphs ::
  "(gostring \<Rightarrow> gostring + Node) \<Rightarrow> unicode \<Rightarrow> gostring \<Rightarrow> gostring + gostring list" where
  "ExtractWordsFromParagraphs parse U htmlContent =
     (case parse htmlContent of
        Inl err \<Rightarrow> Inl (str ''failed to parse HTML: '' @ err)
      | Inr doc \<Rightarrow> Inr (traverse U doc []))"

subsection \<open>The extraction as the specification words it\<close>

text \<open>The nodes of a tree in depth-first document order.\<close>

fun preorder :: "Node \<Rightarrow> Node list" where
  "preorder (Node ty d cs) = Node ty d cs # concat (map preorder cs)"

definition is_p :: "Node \<Rightarrow> bool" where
  "is_p n \<longleftrightarrow> Type n = ElementNode \<and> Data n = str ''p''"

text \<open>The text inside a node: the data of its text nodes, in document order.\<close>

definition text_inside :: "Node \<Rightarrow> gostring" where
  "text_inside n = concat (map Data (filter (\<lambda>m. Type m = TextNode) (preorder n)))"

text \<open>
  Keep letters, whitespace and apostrophes, drop every other character, and lowercase
  the letters.
\<close>

definition normalise :: "unicode \<Rightarrow> gostring \<Rightarrow> gostring" where
  "normalise U s =
     map (\<lambda>r. if IsLetter U r then ToLower U r else r)
       (filter (\<lambda>r. IsLetter U r \<or> IsSpace U r \<or> r = 39) s)"

text \<open>Cut at every whitespace character, then discard the empty pieces.\<close>

fun pieces :: "(rune \<Rightarrow> bool) \<Rightarrow> gostring \<Rightarrow> gostring list" where
  "pieces f [] = [[]]"
| "pieces f (r # rs) =
     (if f r then [] # pieces f rs
      else (case pieces f rs of [] \<Rightarrow> [[r]] | p # ps \<Rightarrow> (r # p) # ps))"

definition tokens :: "unicode \<Rightarrow> gostring \<Rightarrow> gostring list" where
  "tokens U s = filter (\<lambda>w. w \<noteq> []) (pieces (IsSpace U) s)"

text \<open>
  The tokens of the text of each \<^verbatim>\<open><p>\<close> element, the elements taken in depth-first
  document order.
\<close>

definition paragraph_tokens :: "unicode \<Rightarrow> Node \<Rightarrow> gostring list" where
  "paragraph_tokens U doc =
     concat (map (\<lambda>p. tokens U (normalise U (text_inside p))) (filter is_p (preorder doc)))"

section \<open>Usage store\<close>

text \<open>
  The table \<^verbatim>\<open>used_words(word TEXT, language TEXT, PRIMARY KEY(word, language))\<close> is the
  list of its rows in insertion order. The failures of the database driver are a
  parameter: which of the calls \<^verbatim>\<open>sql.Open\<close>, \<^verbatim>\<open>db.Exec\<close>, \<^verbatim>\<open>db.Begin\<close>, \<^verbatim>\<open>tx.Prepare\<close>,
  the \<open>i\<close>-th \<^verbatim>\<open>stmt.Exec\<close>, \<^verbatim>\<open>tx.Commit\<close>, \<^verbatim>\<open>db.Query\<close> and the \<open>i\<close>-th \<^verbatim>\<open>rows.Scan\<close>
  fails, and with which error. Iteration with \<^verbatim>\<open>rows.Next\<close> visits every selected row.
\<close>

type_synonym table = "(gostring \<times> gostring) list"

record faults =
  open_err :: "gostring option"
  create_err :: "gostring option"
  begin_err :: "gostring option"
  prepare_err :: "gostring option"
  exec_err :: "nat \<Rightarrow> gostring option"
  commit_err :: "gostring option"
  query_err :: "gostring option"
  scan_err :: "nat \<Rightarrow> gostring option"

definition no_faults :: faults where
  "no_faults = \<lparr> open_err = None, create_err = None, begin_err = None, prepare_err = None,
                 exec_err = (\<lambda>i. None), commit_err = None, query_err = None,
                 scan_err = (\<lambda>i. None) \<rparr>"

text \<open>
  \<^verbatim>\<open>func initDB() error\<close>: \<^verbatim>\<open>CREATE TABLE IF NOT EXISTS\<close> makes the empty table when the
  database file has none and keeps an existing one.
\<close>

definition initDB :: "faults \<Rightarrow> table option \<Rightarrow> gostring option \<times> table option" where
  "initDB F file =
     (case open_err F of Some err \<Rightarrow> (Some err, file)
      | None \<Rightarrow>
     (case create_err F of Some err \<Rightarrow> (Some err, file)
      | None \<Rightarrow> (None, (case file of None \<Rightarrow> Some [] | Some t \<Rightarrow> Some t))))"

text \<open>
  \<^verbatim>\<open>INSERT OR IGNORE INTO used_words(word,language) VALUES (?,?)\<close>: a row whose key is
  already in the table is left out without an error.
\<close>

definition insert_or_ignore :: "table \<Rightarrow> gostring \<Rightarrow> gostring \<Rightarrow> table" where
  "insert_or_ignore t word language =
     (if (word, language) \<in> set t then t else t @ [(word, language)])"

text \<open>
  The \<^verbatim>\<open>for _, word := range words\<close> loop of \<^verbatim>\<open>storeUsedWords\<close>, on the rows as the
  open transaction sees them; \<open>i\<close> counts the statements executed.
\<close>

fun exec_loop :: "faults \<Rightarrow> nat \<Rightarrow> gostring list \<Rightarrow> gostring \<Rightarrow> table \<Rightarrow> gostring + table" where
  "exec_loop F i [] language tx = Inr tx"
| "exec_loop F i (word # words) language tx =
     (case exec_err F i of
        Some err \<Rightarrow> Inl err
      | None \<Rightarrow> exec_loop F (Suc i) words language (insert_or_ignore tx word language))"

text \<open>
  \<^verbatim>\<open>func storeUsedWords(words []string, language string) error\<close>, returning the error (if
  any) and the committed table. A transaction starts from the committed rows;
  \<^verbatim>\<open>tx.Rollback()\<close> and a transaction that is never committed leave the committed rows
  as they were, and \<^verbatim>\<open>tx.Commit()\<close> puts the transaction's rows in their place.
\<close>

definition storeUsedWords ::
  "faults \<Rightarrow> gostring list \<Rightarrow> gostring \<Rightarrow> table \<Rightarrow> gostring option \<times> table" where
  "storeUsedWords F words language t =
     (case begin_err F of Some err \<Rightarrow> (Some err, t)
      | None \<Rightarrow>
     (case prepare_err F of Some err \<Rightarrow> (Some err, t)
      | None \<Rightarrow>
     (case exec_loop F 0 words language t of
        Inl err \<Rightarrow> (Some err, t)
      | Inr tx \<Rightarrow>
     (case commit_err F of Some err \<Rightarrow> (Some err, t)
      | None \<Rightarrow> (None, tx)))))"

text \<open>
  The \<^verbatim>\<open>for rows.Next()\<close> loop of \<^verbatim>\<open>getUsedWords\<close> over the selected words; \<open>i\<close> counts
  the rows scanned.
\<close>

fun scan_loop :: "faults \<Rightarrow> nat \<Rightarrow> gostring list \<Rightarrow> gostring set \<Rightarrow> gostring + gostring set" where
  "scan_loop F i [] used = Inr used"
| "scan_loop F i (word # rows) used =
     (case scan_err F i of
        Some err \<Rightarrow> Inl err
      | None \<Rightarrow> scan_loop F (Suc i) rows (insert word used))"

text \<open>
  \<^verbatim>\<open>func getUsedWords(language string) (map[string]struct{}, error)\<close> with the query
  \<^verbatim>\<open>SELECT word FROM used_words WHERE language=?\<close>.
\<close>

definition getUsedWords :: "faults \<Rightarrow> gostring \<Rightarrow> table \<Rightarrow> gostring + gostring set" where
  "getUsedWords F language t =
     (case query_err F of Some err \<Rightarrow> Inl err
      | None \<Rightarrow> scan_loop F 0 (map fst (filter (\<lambda>row. snd row = language) t)) {})"

text \<open>A sequence of \<^verbatim>\<open>storeUsedWords\<close> calls, each with its own failures.\<close>

fun store_calls :: "(faults \<times> gostring list \<times> gostring) list \<Rightarrow> table \<Rightarrow> table" where
  "store_calls [] t = t"
| "store_calls ((F, words, language) # calls) t =
     store_calls calls (snd (storeUsedWords F words language t))"


text \<open>The driver whose \<open>k\<close>-th \<^verbatim>\<open>stmt.Exec\<close> of a batch fails, and nothing else.\<close>

definition exec_fails_at :: "nat \<Rightarrow> faults" where
  "exec_fails_at k =
     no_faults \<lparr> exec_err := (\<lambda>i. if i = k then Some (str ''disk I/O error'') else None) \<rparr>"

section \<open>Request handler\<close>

text \<open>
  \<^verbatim>\<open>var randomArticleURLByLanguage = map[string]string{...}\<close>; indexing a Go map with a
  key it does not hold gives the zero value, the empty string.
\<close>

definition randomArticleURLByLanguage :: "gostring \<rightharpoonup> gostring" where
  "randomArticleURLByLanguage =
     [str ''en'' \<mapsto> str ''https://en.wikipedia.org/wiki/Special:Random'',
      str ''fr'' \<mapsto> str ''https://fr.wikipedia.org/wiki/Sp%C3%A9cial:Page_au_hasard'',
      str ''de'' \<mapsto> str ''https://de.wikipedia.org/wiki/Spezial:Zuf%C3%A4llige_Seite'']"

definition map_index :: "(gostring \<rightharpoonup> gostring) \<Rightarrow> gostring \<Rightarrow> gostring" where
  "map_index m key = (case m key of None \<Rightarrow> [] | Some v \<Rightarrow> v)"

text \<open>
  \<^verbatim>\<open>url.Values\<close> is \<^verbatim>\<open>map[string][]string\<close>; \<^verbatim>\<open>Get\<close> gives the first value of the key, or
  the empty string when there is none.
\<close>

type_synonym Values = "gostring \<rightharpoonup> gostring list"

definition Values_Get :: "Values \<Rightarrow> gostring \<Rightarrow> gostring" where
  "Values_Get v key = (case v key of None \<Rightarrow> [] | Some [] \<Rightarrow> [] | Some (x # xs) \<Rightarrow> x)"

text \<open>
  \<^verbatim>\<open>strconv.Atoi\<close>: an optional sign, then one or more decimal digits, of a value that
  fits a 64-bit \<^verbatim>\<open>int\<close>; anything else is an error.
\<close>

definition is_digit :: "rune \<Rightarrow> bool" where
  "is_digit r \<longleftrightarrow> 48 \<le> r \<and> r \<le> 57"

definition digits_value :: "gostring \<Rightarrow> int" where
  "digits_value ds = foldl (\<lambda>n ch. n * 10 + int (ch - 48)) 0 ds"

definition Atoi :: "gostring \<Rightarrow> int option" where
  "Atoi s =
     (case s of
        [] \<Rightarrow> None
      | c # rest \<Rightarrow>
          (let ds = (if c = 45 \<or> c = 43 then rest else s) in
           if ds = [] \<or> \<not> list_all is_digit ds then None
           else (let n = (if c = 45 then - digits_value ds else digits_value ds) in
                 if - (2 ^ 63) \<le> n \<and> n \<le> 2 ^ 63 - 1 then Some n else None)))"

text \<open>
  The outside world of one request: the network behind \<^verbatim>\<open>http.Get\<close>, which gives an
  error or a response whose body \<^verbatim>\<open>io.ReadAll\<close> reads to the bytes and the error it
  returns; the HTML parser; the Unicode tables; the random generator; and the failures
  of the database driver during \<^verbatim>\<open>getUsedWords\<close> and during \<^verbatim>\<open>storeUsedWords\<close>.
\<close>

record world =
  network :: "gostring \<Rightarrow> gostring + (gostring \<times> gostring option)"
  parser :: "gostring \<Rightarrow> gostring + Node"
  unicode_tables :: unicode
  generator :: "nat \<Rightarrow> nat"
  read_faults :: faults
  write_faults :: faults

text \<open>
  \<^verbatim>\<open>http.Get\<close>: the empty URL has no scheme and is refused before anything is sent;
  every other URL is left to the network.
\<close>

definition unsupported_scheme :: gostring where
  "unsupported_scheme = str ''Get '' @ [34, 34] @ str '': unsupported protocol scheme '' @ [34, 34]"

definition http_Get ::
  "(gostring \<Rightarrow> gostring + (gostring \<times> gostring option)) \<Rightarrow> gostring
     \<Rightarrow> gostring + (gostring \<times> gostring option)" where
  "http_Get transport url =
     (if url = [] then Inl unsupported_scheme else transport url)"

text \<open>
  What the handler writes to the \<^verbatim>\<open>http.ResponseWriter\<close>: \<^verbatim>\<open>http.Error(w, msg, code)\<close>
  sends the status code with the message as the body, as a line of plain text;
  \<^verbatim>\<open>json.NewEncoder(w).Encode(response)\<close> sends status 200 with the encoded payload.
\<close>

record Response =
  Language :: gostring
  Words :: "gostring list"

datatype written = Error gostring nat | Encode Response

definition StatusInternalServerError :: nat where
  "StatusInternalServerError = 500"

text \<open>Lines 171 to 184 of \<^verbatim>\<open>pickHandler\<close>: the language and the count of the request.\<close>

definition request_language :: "Values \<Rightarrow> gostring" where
  "request_language query =
     (let language = Values_Get query (str ''language'')
      in if language = [] then str ''en'' else language)"

definition request_countValue :: "Values \<Rightarrow> int" where
  "request_countValue query =
     (let count = Values_Get query (str ''count'');
          count = (if count = [] then str ''10'' else count)
      in case Atoi count of None \<Rightarrow> 10 | Some countValue \<Rightarrow> countValue)"

text \<open>
  Lines 186 to 227 of \<^verbatim>\<open>pickHandler\<close>. The error of \<^verbatim>\<open>io.ReadAll\<close> is overwritten by the
  result of \<^verbatim>\<open>builder.Write\<close>, which is always \<^verbatim>\<open>nil\<close>, before it is looked at. The
  result is what was written and the committed table.
\<close>

definition serve ::
  "world \<Rightarrow> gostring \<Rightarrow> int \<Rightarrow> table \<Rightarrow> (written \<times> table) outcome option" where
  "serve W language countValue t =
     (case http_Get (network W) (map_index randomArticleURLByLanguage language) of
        Inl err \<Rightarrow> Some (Returns (Error err StatusInternalServerError, t))
      | Inr (body, read_err) \<Rightarrow>
     (case ExtractWordsFromParagraphs (parser W) (unicode_tables W) body of
        Inl err \<Rightarrow> Some (Returns (Error err StatusInternalServerError, t))
      | Inr words \<Rightarrow>
     (case getUsedWords (read_faults W) language t of
        Inl err \<Rightarrow> Some (Returns (Error err StatusInternalServerError, t))
      | Inr usedBefore \<Rightarrow>
     (case PickRandomUniqueWords words countValue usedBefore (generator W) of
        None \<Rightarrow> None
      | Some (Panics p) \<Rightarrow> Some (Panics p)
      | Some (Returns firstNWords) \<Rightarrow>
     (case storeUsedWords (write_faults W) firstNWords language t of
        (Some err, t') \<Rightarrow> Some (Returns (Error err StatusInternalServerError, t'))
      | (None, t') \<Rightarrow>
          Some (Returns (Encode \<lparr> Language = language, Words = firstNWords \<rparr>, t')))))))"

text \<open>\<^verbatim>\<open>func pickHandler(w http.ResponseWriter, r *http.Request)\<close>\<close>

definition pickHandler ::
  "world \<Rightarrow> Values \<Rightarrow> table \<Rightarrow> (written \<times> table) outcome option" where
  "pickHandler W query t = serve W (request_language query) (request_countValue query) t"

section \<open>Example inputs\<close>

text \<open>
  The document of the extraction example: a paragraph \<^verbatim>\<open>Hello, World's Best!\<close> and,
  beside it, the text \<^verbatim>\<open>Ignored\<close> of a table.
\<close>

definition example_html :: gostring where
  "example_html = str ''<p>Hello, World'' @ [39] @ str ''s Best!</p><table>Ignored</table>''"

definition example_doc :: Node where
  "example_doc =
     Node DocumentNode [] [
       Node ElementNode (str ''html'') [
         Node ElementNode (str ''head'') [],
         Node ElementNode (str ''body'') [
           Node ElementNode (str ''p'') [
             Node TextNode (str ''Hello, World'' @ [39] @ str ''s Best!'') []],
           Node TextNode (str ''Ignored'') [],
           Node ElementNode (str ''table'') []]]]"

text \<open>A document with no paragraph: the text of a table alone.\<close>

definition table_html :: gostring where
  "table_html = str ''<table>Ignored</table>''"

definition table_doc :: Node where
  "table_doc =
     Node DocumentNode [] [
       Node ElementNode (str ''html'') [
         Node ElementNode (str ''head'') [],
         Node ElementNode (str ''body'') [
           Node TextNode (str ''Ignored'') [],
           Node ElementNode (str ''table'') []]]]"

text \<open>The first bytes of the example document, as a read that breaks off delivers them.\<close>

definition truncated_html :: gostring where
  "truncated_html = str ''<p>Hello, World''"

definition truncated_doc :: Node where
  "truncated_doc =
     Node DocumentNode [] [
       Node ElementNode (str ''html'') [
         Node ElementNode (str ''head'') [],
         Node ElementNode (str ''body'') [
           Node ElementNode (str ''p'') [
             Node TextNode (str ''Hello, World'') []]]]]"

definition example_parse :: "gostring \<Rightarrow> gostring + Node" where
  "example_parse s =
     (if s = example_html then Inr example_doc
      else if s = table_html then Inr table_doc
      else if s = truncated_html then Inr truncated_doc
      else Inl (str ''unexpected input''))"

definition example_words :: "gostring list" where
  "example_words = [str ''hello'', str ''world'' @ [39] @ str ''s'', str ''best'']"

text \<open>
  A world in which every fetch delivers the example document, and one in which the
  read of the response body breaks off with an error after the first bytes.
\<close>

definition example_fetch :: "gostring \<Rightarrow> gostring + (gostring \<times> gostring option)" where
  "example_fetch url = Inr (example_html, None)"

definition truncated_fetch :: "gostring \<Rightarrow> gostring + (gostring \<times> gostring option)" where
  "truncated_fetch url = Inr (truncated_html, Some (str ''unexpected EOF''))"

definition example_world :: world where
  "example_world = \<lparr> network = example_fetch, parser = example_parse, unicode_tables = ascii,
                     generator = draws_in_turn, read_faults = no_faults,
                     write_faults = no_faults \<rparr>"

definition truncated_world :: world where
  "truncated_world = example_world \<lparr> network := truncated_fetch \<rparr>"

section \<open>Properties of the word selector\<close>

lemma contains_iff: "contains ws w \<longleftrightarrow> w \<in> set ws"
  by (induction ws) auto

lemma Intn_less: "0 < n \<Longrightarrow> Intn rnd k n < n"
  by (simp add: Intn_def)

lemma drawn_in_pool: "words \<noteq> [] \<Longrightarrow> drawn words rnd j \<in> set words"
  by (simp add: drawn_def Intn_less)

lemma loop_post_skip:
  "loop_post words n usedBefore rnd (Suc k) randomWords r
   \<Longrightarrow> loop_post words n usedBefore rnd k randomWords r"
  unfolding loop_post_def by (elim exE conjE, intro exI conjI) auto

lemma loop_post_last:
  assumes "int (length (randomWords @ [drawn words rnd k])) = n"
    and "distinct randomWords" and "set randomWords \<inter> usedBefore = {}"
    and "drawn words rnd k \<notin> usedBefore" and "drawn words rnd k \<notin> set randomWords"
  shows "loop_post words n usedBefore rnd k randomWords
           (Returns (randomWords @ [drawn words rnd k]))"
  unfolding loop_post_def using assms
  by (intro exI[of _ "randomWords @ [drawn words rnd k]"] exI[of _ "[k]"]) auto

lemma loop_post_accept:
  assumes "loop_post words n usedBefore rnd (Suc k) (randomWords @ [drawn words rnd k]) r"
  shows "loop_post words n usedBefore rnd k randomWords r"
proof -
  from assms obtain out js where
    "r = Returns out" "int (length out) = n" "distinct out" "set out \<inter> usedBefore = {}"
    "sorted_wrt (<) js" "js \<noteq> []" "\<forall>j \<in> set js. Suc k \<le> j"
    "out = (randomWords @ [drawn words rnd k]) @ map (drawn words rnd) js"
    unfolding loop_post_def by blast
  then show ?thesis
    unfolding loop_post_def
    by (intro exI[of _ out] exI[of _ "k # js"]) auto
qed

lemma pick_loop_returns:
  assumes "pick_loop words n usedBefore rnd k randomWords = Some r"
  shows "words \<noteq> [] \<longrightarrow> distinct randomWords \<longrightarrow> set randomWords \<inter> usedBefore = {}
           \<longrightarrow> loop_post words n usedBefore rnd k randomWords r"
proof (rule pick_loop.raw_induct[where P = "\<lambda>words n usedBefore rnd k randomWords r.
     words \<noteq> [] \<longrightarrow> distinct randomWords \<longrightarrow> set randomWords \<inter> usedBefore = {}
       \<longrightarrow> loop_post words n usedBefore rnd k randomWords r", OF _ assms])
  fix loop :: "gostring list \<Rightarrow> int \<Rightarrow> gostring set \<Rightarrow> (nat \<Rightarrow> nat) \<Rightarrow> nat \<Rightarrow> gostring list
     \<Rightarrow> gostring list outcome option"
  fix words :: "gostring list" and n :: int and usedBefore :: "gostring set"
    and rnd :: "nat \<Rightarrow> nat" and k :: nat and randomWords :: "gostring list"
    and r :: "gostring list outcome"
  let ?w = "words ! Intn rnd k (length words)"
  assume IH: "\<And>words n usedBefore rnd k randomWords r.
      loop words n usedBefore rnd k randomWords = Some r \<Longrightarrow>
      words \<noteq> [] \<longrightarrow> distinct randomWords \<longrightarrow> set randomWords \<inter> usedBefore = {}
        \<longrightarrow> loop_post words n usedBefore rnd k randomWords r"
  assume step: "(if length words = 0 then Some (Panics (str ''invalid argument to Intn''))
     else if ?w \<in> usedBefore \<or> contains randomWords ?w
          then loop words n usedBefore rnd (Suc k) randomWords
     else if int (length (randomWords @ [?w])) = n
          then Some (Returns (randomWords @ [?w]))
     else loop words n usedBefore rnd (Suc k) (randomWords @ [?w])) = Some r"
  have w: "?w = drawn words rnd k"
    by (simp add: drawn_def)
  show "words \<noteq> [] \<longrightarrow> distinct randomWords \<longrightarrow> set randomWords \<inter> usedBefore = {}
          \<longrightarrow> loop_post words n usedBefore rnd k randomWords r"
  proof (intro impI)
    assume ne: "words \<noteq> []" and d: "distinct randomWords"
      and u: "set randomWords \<inter> usedBefore = {}"
    show "loop_post words n usedBefore rnd k randomWords r"
    proof (cases "?w \<in> usedBefore \<or> contains randomWords ?w")
      case True
      with ne step have "loop words n usedBefore rnd (Suc k) randomWords = Some r"
        by (simp split: if_splits)
      from IH[OF this] ne d u show ?thesis
        by (simp add: loop_post_skip)
    next
      case False
      then have fresh: "?w \<notin> usedBefore" "?w \<notin> set randomWords"
        by (simp_all add: contains_iff)
      show ?thesis
      proof (cases "int (length (randomWords @ [?w])) = n")
        case True
        with False ne step have "r = Returns (randomWords @ [?w])"
          by (simp split: if_splits)
        with True fresh d u show ?thesis
          unfolding w by (simp add: loop_post_last)
      next
        case notyet: False
        with False ne step
        have "loop words n usedBefore rnd (Suc k) (randomWords @ [?w]) = Some r"
          by (simp split: if_splits)
        moreover have "distinct (randomWords @ [?w])"
          "set (randomWords @ [?w]) \<inter> usedBefore = {}"
          using fresh d u by auto
        ultimately have "loop_post words n usedBefore rnd (Suc k) (randomWords @ [?w]) r"
          using IH ne by blast
        then show ?thesis
          unfolding w by (rule loop_post_accept)
      qed
    qed
  qed
qed



text \<open>
  C2. When \<open>n\<close> is at least the size of the pool, the selector returns the pool itself:
  the same elements in the same order, duplicates and used words included.
\<close>

theorem PickRandomUniqueWords_whole_pool:
  "n \<ge> int (length words) \<Longrightarrow> PickRandomUniqueWords words n usedBefore rnd = Some (Returns words)"
  by (simp add: PickRandomUniqueWords_def)

theorem PickRandomUniqueWords_whole_pool_witness:
  "(5::int) \<ge> int (length [str ''a'', str ''a''])
   \<and> PickRandomUniqueWords [str ''a'', str ''a''] 5 {str ''a''} draws_in_turn
       = Some (Returns [str ''a'', str ''a''])"
  using PickRandomUniqueWords_whole_pool [of "[str ''a'', str ''a'']" 5 "{str ''a''}" draws_in_turn]
  by simp

subsection \<open>When the loop returns\<close>

text \<open>
  The loop cannot return when no words are asked for, nor when fewer eligible words
  exist than are asked for: a returned slice has at least one element and consists of
  distinct eligible words.
\<close>

lemma pick_loop_never:
  assumes "words \<noteq> []" and "n \<le> 0 \<or> int (card (set words - usedBefore)) < n"
  shows "pick_loop words n usedBefore rnd 0 [] = None"
proof (rule ccontr)
  assume "pick_loop words n usedBefore rnd 0 [] \<noteq> None"
  then obtain r where r: "pick_loop words n usedBefore rnd 0 [] = Some r"
    by auto
  from pick_loop_returns[OF r] assms(1)
  have "loop_post words n usedBefore rnd 0 [] r"
    by simp
  then obtain out js where o: "int (length out) = n" "distinct out"
    "set out \<inter> usedBefore = {}" "js \<noteq> []" "out = map (drawn words rnd) js"
    unfolding loop_post_def by auto
  from o(5) assms(1) have "set out \<subseteq> set words"
    by (auto simp: drawn_in_pool)
  with o(3) have "set out \<subseteq> set words - usedBefore"
    by auto
  then have "card (set out) \<le> card (set words - usedBefore)"
    by (intro card_mono) auto
  with o(2) have "length out \<le> card (set words - usedBefore)"
    by (simp add: distinct_card)
  moreover from o(4,5) have "0 < length out"
    by simp
  ultimately show False
    using assms(2) o(1) by auto
qed

text \<open>Draws that are all rejected leave the loop where it was.\<close>

lemma pick_loop_skip:
  assumes "words \<noteq> []"
    and "\<forall>j. k \<le> j \<and> j < k + d
           \<longrightarrow> drawn words rnd j \<in> usedBefore \<or> drawn words rnd j \<in> set randomWords"
  shows "pick_loop words n usedBefore rnd k randomWords
         = pick_loop words n usedBefore rnd (k + d) randomWords"
  using assms(2)
proof (induction d arbitrary: k)
  case 0
  then show ?case by simp
next
  case (Suc d)
  from Suc.prems have "drawn words rnd k \<in> usedBefore \<or> drawn words rnd k \<in> set randomWords"
    by simp
  with assms(1) have "pick_loop words n usedBefore rnd k randomWords
      = pick_loop words n usedBefore rnd (Suc k) randomWords"
    by (subst pick_loop.simps) (auto simp: drawn_def contains_iff)
  also have "\<dots> = pick_loop words n usedBefore rnd (Suc k + d) randomWords"
    using Suc.prems by (intro Suc.IH) auto
  finally show ?case by simp
qed

text \<open>
  With recurrent draws and enough eligible words, the loop returns from every state that
  still lacks words: the next acceptable draw comes after finitely many rejected ones.
\<close>

lemma pick_loop_progress:
  assumes ne: "words \<noteq> []" and rec: "recurrent (length words) rnd"
    and enough: "n \<le> int (card (set words - usedBefore))"
  shows "distinct randomWords \<Longrightarrow> set randomWords \<subseteq> set words - usedBefore
         \<Longrightarrow> int (length randomWords) < n
         \<Longrightarrow> \<exists>out. pick_loop words n usedBefore rnd k randomWords = Some (Returns out)"
proof (induction "nat n - length randomWords" arbitrary: k randomWords rule: less_induct)
  case less
  let ?ok = "\<lambda>j. k \<le> j \<and> drawn words rnd j \<notin> usedBefore \<and> drawn words rnd j \<notin> set randomWords"
  have "card (set randomWords) < card (set words - usedBefore)"
    using less.prems enough by (simp add: distinct_card)
  with less.prems(2) have "set randomWords \<noteq> set words - usedBefore"
    by auto
  with less.prems(2) obtain w where w: "w \<in> set words" "w \<notin> usedBefore" "w \<notin> set randomWords"
    by blast
  then obtain i where i: "i < length words" "words ! i = w"
    by (auto simp: in_set_conv_nth)
  with rec obtain j where "k \<le> j" "Intn rnd j (length words) = i"
    unfolding recurrent_def by blast
  with i w have ex: "?ok j"
    by (simp add: drawn_def)
  define j0 where "j0 = (LEAST j. ?ok j)"
  have ok0: "?ok j0"
    unfolding j0_def using ex by (rule LeastI)
  have least: "\<And>j. j < j0 \<Longrightarrow> \<not> ?ok j"
    unfolding j0_def by (rule not_less_Least)
  obtain d where d: "j0 = k + d"
    using ok0 by (auto simp: le_iff_add)
  have "\<forall>j. k \<le> j \<and> j < k + d
          \<longrightarrow> drawn words rnd j \<in> usedBefore \<or> drawn words rnd j \<in> set randomWords"
    using least d by auto
  from pick_loop_skip[OF ne this]
  have skip: "pick_loop words n usedBefore rnd k randomWords
         = pick_loop words n usedBefore rnd j0 randomWords"
    by (simp add: d)
  let ?w = "drawn words rnd j0"
  show ?case
  proof (cases "int (length (randomWords @ [?w])) = n")
    case True
    with ok0 ne have "pick_loop words n usedBefore rnd j0 randomWords
        = Some (Returns (randomWords @ [?w]))"
      by (subst pick_loop.simps) (auto simp: drawn_def contains_iff)
    with skip show ?thesis by simp
  next
    case False
    with ok0 ne have "pick_loop words n usedBefore rnd j0 randomWords
       = pick_loop words n usedBefore rnd (Suc j0) (randomWords @ [?w])"
      by (subst pick_loop.simps) (auto simp: drawn_def contains_iff)
    moreover have "\<exists>out. pick_loop words n usedBefore rnd (Suc j0) (randomWords @ [?w])
                      = Some (Returns out)"
    proof (rule less.hyps)
      show "nat n - length (randomWords @ [?w]) < nat n - length randomWords"
        using less.prems(3) by auto
      show "distinct (randomWords @ [?w])"
        using less.prems(1) ok0 by simp
      show "set (randomWords @ [?w]) \<subseteq> set words - usedBefore"
        using less.prems(2) ok0 ne by (auto simp: drawn_in_pool)
      show "int (length (randomWords @ [?w])) < n"
        using less.prems(3) False by auto
    qed
    ultimately show ?thesis
      using skip by simp
  qed
qed

lemma recurrent_draws_in_turn: "recurrent len draws_in_turn"
  unfolding recurrent_def
proof (intro allI impI)
  fix i k :: nat
  assume "i < len"
  then have "k \<le> k * len + i" "Intn draws_in_turn (k * len + i) len = i"
    by (cases len, simp_all add: Intn_def draws_in_turn_def)
  then show "\<exists>j\<ge>k. Intn draws_in_turn j len = i"
    by blast
qed

text \<open>
  For a count between 1 and the size of the pool, and recurrent draws, the selector
  returns exactly when at least \<open>n\<close> distinct words of the pool are not used words;
  with fewer it returns for no sequence of draws at all.
\<close>

lemma PickRandomUniqueWords_returns_iff:
  assumes "0 < n" and "n < int (length words)"
  shows "(recurrent (length words) rnd \<longrightarrow>
           ((\<exists>out. PickRandomUniqueWords words n usedBefore rnd = Some (Returns out))
              \<longleftrightarrow> n \<le> int (card (set words - usedBefore))))
       \<and> (int (card (set words - usedBefore)) < n
            \<longrightarrow> PickRandomUniqueWords words n usedBefore rnd = None)"
proof -
  from assms have ne: "words \<noteq> []"
    by auto
  from assms have unfold: "PickRandomUniqueWords words n usedBefore rnd
      = pick_loop words n usedBefore rnd 0 []"
    by (simp add: PickRandomUniqueWords_def)
  have few: "PickRandomUniqueWords words n usedBefore rnd = None"
    if "int (card (set words - usedBefore)) < n"
    using pick_loop_never[OF ne, of n usedBefore rnd] that unfold by simp
  have many: "\<exists>out. PickRandomUniqueWords words n usedBefore rnd = Some (Returns out)"
    if "recurrent (length words) rnd" "n \<le> int (card (set words - usedBefore))"
    using pick_loop_progress[OF ne that, of "[]" 0] assms(1) unfold by simp
  from few many show ?thesis
    by (metis linorder_not_less option.distinct(1))
qed

text \<open>
  C3. The claim asks the selector to return whenever the pool holds at least \<open>n\<close>
  distinct words that are not used words. For the one-word pool and \<open>n = 0\<close> the
  condition holds, and the selector returns for no sequence of draws: the loop tests
  the length only after an append.
\<close>

theorem PickRandomUniqueWords_zero_of_one_word:
  "(0::int) < int (length [str ''a''])
   \<and> (0::int) \<le> int (card (set [str ''a''] - {}))
   \<and> PickRandomUniqueWords [str ''a''] 0 {} rnd = None"
proof -
  have "pick_loop [str ''a''] 0 {} rnd 0 [] = None"
    by (rule pick_loop_never) simp_all
  then show ?thesis
    by (simp add: PickRandomUniqueWords_def)
qed

section \<open>Properties of the text extractor\<close>

lemma fold_append: "fold (\<lambda>c acc. acc @ g c) cs init = init @ concat (map g cs)"
  by (induction cs arbitrary: init) simp_all

lemma concat_filter_preorder:
  "concat (map Data (filter P (concat (map preorder cs))))
   = concat (map (\<lambda>c. concat (map Data (filter P (preorder c)))) cs)"
  by (induction cs) simp_all

lemma text_inside_Node:
  "text_inside (Node ty d cs) = (if ty = TextNode then d else []) @ concat (map text_inside cs)"
proof -
  have eq: "text_inside = (\<lambda>n. concat (map Data (filter (\<lambda>m. Type m = TextNode) (preorder n))))"
    by (rule ext) (simp add: text_inside_def)
  show ?thesis
    unfolding eq by (simp add: concat_filter_preorder)
qed

lemma getText_text_inside: "getText n = text_inside n"
proof (induction n)
  case (Node ty d cs)
  then have kids: "map getText cs = map text_inside cs"
    by simp
  show ?case
    by (simp add: fold_append text_inside_Node kids)
qed

lemma is_p_Node: "is_p (Node ty d cs) \<longleftrightarrow> ty = ElementNode \<and> d = str ''p''"
  by (simp add: is_p_def)

lemma RemovePunctuation_fold:
  "fold (\<lambda>r builder. if IsLetter U r \<or> IsSpace U r \<or> r = 39
                       then builder @ [ToLower U r] else builder) s init
   = init @ map (ToLower U) (filter (\<lambda>r. IsLetter U r \<or> IsSpace U r \<or> r = 39) s)"
  by (induction s arbitrary: init) simp_all

lemma RemovePunctuation_normalise:
  assumes "\<forall>r. IsSpace U r \<or> r = 39 \<longrightarrow> \<not> IsLetter U r \<longrightarrow> ToLower U r = r"
  shows "RemovePunctuation U s = normalise U s"
  using assms by (auto simp: RemovePunctuation_def RemovePunctuation_fold normalise_def)

lemma pieces_not_Nil: "pieces f s \<noteq> []"
  by (induction s) (auto split: list.splits)

lemma FieldsFunc_loop_pieces:
  "FieldsFunc_loop f s None spans = spans @ filter (\<lambda>w. w \<noteq> []) (pieces f s)"
  "field \<noteq> [] \<Longrightarrow> FieldsFunc_loop f s (Some field) spans
     = spans @ (field @ hd (pieces f s)) # filter (\<lambda>w. w \<noteq> []) (tl (pieces f s))"
proof (induction s arbitrary: spans field)
  case Nil
  {
    case 1
    show ?case by simp
  next
    case 2
    show ?case by simp
  }
next
  case (Cons r rs)
  obtain p ps where p: "pieces f rs = p # ps"
    using pieces_not_Nil[of f rs] by (cases "pieces f rs") auto
  {
    case 1
    show ?case
      using Cons.IH(1)[of spans] Cons.IH(2)[of "[r]" spans] p by simp
  next
    case 2
    then show ?case
      using Cons.IH(1)[of "spans @ [field]"] Cons.IH(2)[of "field @ [r]" spans] p by simp
  }
qed

lemma Fields_tokens: "Fields U s = tokens U s"
  by (simp add: Fields_def tokens_def FieldsFunc_loop_pieces(1))

lemma fold_traverse:
  assumes "\<And>c ws. c \<in> set cs \<Longrightarrow> traverse U c ws = ws @ g c"
  shows "fold (\<lambda>c ws. traverse U c ws) cs init = init @ concat (map g cs)"
  using assms by (induction cs arbitrary: init) simp_all

lemma filter_concat_preorder:
  "filter P (concat (map preorder cs)) = concat (map (\<lambda>c. filter P (preorder c)) cs)"
  by (induction cs) simp_all

lemma traverse_paragraphs:
  "traverse U n words
   = words @ concat (map (\<lambda>p. Fields U (RemovePunctuation U (getText p)))
                       (filter is_p (preorder n)))"
proof (induction n arbitrary: words)
  case (Node ty d cs)
  let ?g = "\<lambda>c. concat (map (\<lambda>p. Fields U (RemovePunctuation U (getText p)))
                            (filter is_p (preorder c)))"
  have kids: "fold (\<lambda>c ws. traverse U c ws) cs init = init @ concat (map ?g cs)" for init
    by (rule fold_traverse) (rule Node.IH)
  have rest: "concat (map ?g cs)
      = concat (map (\<lambda>p. Fields U (RemovePunctuation U (getText p)))
                  (filter is_p (concat (map preorder cs))))"
    by (induction cs) simp_all
  show ?case
    by (simp add: kids rest is_p_Node del: getText.simps)
qed

text \<open>
  C5. For a document that parses, and tables in which lowercasing leaves whitespace and
  the apostrophe as they are, the extractor returns exactly the tokens of the
  paragraph texts: for each \<^verbatim>\<open><p>\<close> element in depth-first document order, the text of
  the text nodes inside it, reduced to letters, whitespace and apostrophes with the
  letters lowercased, cut at runs of whitespace. A document without \<^verbatim>\<open><p>\<close> elements
  gives no tokens.
\<close>

theorem ExtractWordsFromParagraphs_paragraph_tokens:
  assumes "parse htmlContent = Inr doc"
    and "\<forall>r. IsSpace U r \<or> r = 39 \<longrightarrow> \<not> IsLetter U r \<longrightarrow> ToLower U r = r"
  shows "ExtractWordsFromParagraphs parse U htmlContent = Inr (paragraph_tokens U doc)
       \<and> ((\<forall>n \<in> set (preorder doc). \<not> is_p n)
            \<longrightarrow> ExtractWordsFromParagraphs parse U htmlContent = Inr [])"
proof -
  have "traverse U doc [] = paragraph_tokens U doc"
    by (simp add: traverse_paragraphs paragraph_tokens_def Fields_tokens
        RemovePunctuation_normalise[OF assms(2)] getText_text_inside)
  with assms(1) have main: "ExtractWordsFromParagraphs parse U htmlContent
      = Inr (paragraph_tokens U doc)"
    by (simp add: ExtractWordsFromParagraphs_def)
  have "paragraph_tokens U doc = []" if "\<forall>n \<in> set (preorder doc). \<not> is_p n"
    using that by (simp add: paragraph_tokens_def filter_False)
  with main show ?thesis
    by simp
qed

theorem ExtractWordsFromParagraphs_paragraph_tokens_witness:
  "example_parse example_html = Inr example_doc
   \<and> ExtractWordsFromParagraphs example_parse ascii example_html = Inr example_words
   \<and> paragraph_tokens ascii example_doc = example_words
   \<and> example_parse table_html = Inr table_doc
   \<and> filter is_p (preorder table_doc) = []
   \<and> ExtractWordsFromParagraphs example_parse ascii table_html = Inr []"
proof -
  have p: "example_parse example_html = Inr example_doc"
    by (simp add: example_parse_def)
  have q: "example_parse table_html = Inr table_doc"
    by code_simp
  have t: "\<forall>r. IsSpace ascii r \<or> r = 39 \<longrightarrow> \<not> IsLetter ascii r \<longrightarrow> ToLower ascii r = r"
    by (simp add: ascii_def)
  have e: "paragraph_tokens ascii example_doc = example_words"
    by code_simp
  have n: "filter is_p (preorder table_doc) = []"
    by code_simp
  then have none: "\<forall>n \<in> set (preorder table_doc). \<not> is_p n"
    by (simp add: filter_empty_conv)
  from ExtractWordsFromParagraphs_paragraph_tokens
      [of example_parse example_html example_doc ascii, OF p t] e
  have a: "ExtractWordsFromParagraphs example_parse ascii example_html = Inr example_words"
    by simp
  from ExtractWordsFromParagraphs_paragraph_tokens
      [of example_parse table_html table_doc ascii, OF q t] none
  have b: "ExtractWordsFromParagraphs example_parse ascii table_html = Inr []"
    by blast
  from a b p q e n show ?thesis
    by simp
qed

section \<open>Properties of the usage store\<close>

lemma set_insert_or_ignore:
  "set (insert_or_ignore t word language) = insert (word, language) (set t)"
  by (auto simp: insert_or_ignore_def)

lemma distinct_insert_or_ignore:
  "distinct t \<Longrightarrow> distinct (insert_or_ignore t word language)"
  by (simp add: insert_or_ignore_def)

lemma exec_loop_rows:
  "exec_loop F i words language tx = Inr tx'
   \<Longrightarrow> set tx' = set tx \<union> (\<lambda>word. (word, language)) ` set words
       \<and> (distinct tx \<longrightarrow> distinct tx')"
proof (induction words arbitrary: i tx)
  case Nil
  then show ?case by simp
next
  case (Cons word words)
  from Cons.prems have
    "exec_loop F (Suc i) words language (insert_or_ignore tx word language) = Inr tx'"
    by (simp split: option.splits)
  from Cons.IH[OF this] show ?case
    by (auto simp: set_insert_or_ignore distinct_insert_or_ignore)
qed

lemma exec_loop_no_faults:
  "\<forall>j. exec_err F j = None \<Longrightarrow> \<exists>tx'. exec_loop F i words language tx = Inr tx'"
  by (induction words arbitrary: i tx) simp_all

lemma exec_loop_fault:
  "k < length words \<Longrightarrow> exec_err F (i + k) = Some err
   \<Longrightarrow> \<exists>err'. exec_loop F i words language tx = Inl err'"
proof (induction words arbitrary: i k tx)
  case Nil
  then show ?case by simp
next
  case (Cons word words)
  show ?case
  proof (cases k)
    case 0
    with Cons.prems show ?thesis by simp
  next
    case (Suc k')
    with Cons.prems have "k' < length words" "exec_err F (Suc i + k') = Some err"
      by simp_all
    from Cons.IH[OF this] show ?thesis
      by (simp split: option.splits)
  qed
qed

lemma storeUsedWords_failure:
  "storeUsedWords F words language t = (Some err, t') \<Longrightarrow> t' = t"
  by (auto simp: storeUsedWords_def split: option.splits sum.splits)

lemma storeUsedWords_success:
  assumes "storeUsedWords F words language t = (None, t')"
  shows "set t' = set t \<union> (\<lambda>word. (word, language)) ` set words"
    and "distinct t \<Longrightarrow> distinct t'"
proof -
  from assms have "exec_loop F 0 words language t = Inr t'"
    by (auto simp: storeUsedWords_def split: option.splits sum.splits)
  from exec_loop_rows[OF this]
  show "set t' = set t \<union> (\<lambda>word. (word, language)) ` set words"
    and "distinct t \<Longrightarrow> distinct t'"
    by simp_all
qed

lemma storeUsedWords_distinct:
  "distinct t \<Longrightarrow> distinct (snd (storeUsedWords F words language t))"
proof -
  assume d: "distinct t"
  obtain e t' where r: "storeUsedWords F words language t = (e, t')"
    by (cases "storeUsedWords F words language t")
  show ?thesis
  proof (cases e)
    case None
    with r d storeUsedWords_success(2)[of F words language t t'] show ?thesis by simp
  next
    case (Some err)
    with r d storeUsedWords_failure[of F words language t err t'] show ?thesis by simp
  qed
qed

lemma storeUsedWords_no_faults:
  "\<exists>t'. storeUsedWords no_faults words language t = (None, t')"
proof -
  have "\<exists>tx'. exec_loop no_faults 0 words language t = Inr tx'"
    by (rule exec_loop_no_faults) (simp add: no_faults_def)
  then show ?thesis
    by (auto simp: storeUsedWords_def no_faults_def)
qed









lemma insert_or_ignore_again:
  "insert_or_ignore (insert_or_ignore t word language) word language
   = insert_or_ignore t word language"
  by (simp add: insert_or_ignore_def)

lemma store_calls_distinct: "distinct t \<Longrightarrow> distinct (store_calls calls t)"
proof (induction calls arbitrary: t)
  case Nil
  then show ?case by simp
next
  case (Cons call calls)
  obtain F words language where call: "call = (F, words, language)"
    by (cases call)
  from Cons.prems have "distinct (snd (storeUsedWords F words language t))"
    by (rule storeUsedWords_distinct)
  then show ?case
    unfolding call by (simp add: Cons.IH)
qed

lemma store_present_no_faults:
  "(word, language) \<in> set t \<Longrightarrow> storeUsedWords no_faults [word] language t = (None, t)"
  by (simp add: storeUsedWords_def no_faults_def insert_or_ignore_def)

lemma store_once_no_faults:
  "storeUsedWords no_faults [word] language t = (None, insert_or_ignore t word language)"
  by (simp add: storeUsedWords_def no_faults_def)

lemma count_list_one: "distinct t \<Longrightarrow> x \<in> set t \<Longrightarrow> count_list t x = 1"
  by (induction t) (auto simp: count_list_0_iff)

text \<open>
  C7. Every sequence of \<^verbatim>\<open>storeUsedWords\<close> calls, whichever of them fail, keeps the rows
  of \<^verbatim>\<open>used_words\<close> free of duplicates, from the empty table that \<^verbatim>\<open>initDB\<close> creates as
  from any duplicate-free table. Storing a pair that is present changes nothing and
  gives no error, and storing \<open>[word]\<close> twice for a language leaves exactly one row
  for the pair.
\<close>

theorem used_words_pairs_unique:
  "(distinct t \<longrightarrow> distinct (store_calls calls t))
   \<and> (initDB F None = (None, Some t0) \<longrightarrow> distinct (store_calls calls t0))
   \<and> ((word, language) \<in> set t \<longrightarrow> storeUsedWords no_faults [word] language t = (None, t))
   \<and> (distinct t \<longrightarrow>
        count_list (store_calls [(no_faults, [word], language), (no_faults, [word], language)] t)
          (word, language) = 1)"
proof -
  have fresh: "distinct (store_calls calls t0)" if "initDB F None = (None, Some t0)"
  proof -
    from that have "t0 = []"
      by (auto simp: initDB_def split: option.splits)
    then show ?thesis
      by (simp add: store_calls_distinct)
  qed
  have twice: "count_list (store_calls [(no_faults, [word], language),
      (no_faults, [word], language)] t) (word, language) = 1" if "distinct t"
  proof -
    let ?t1 = "insert_or_ignore t word language"
    have in1: "(word, language) \<in> set ?t1"
      by (simp add: set_insert_or_ignore)
    have "store_calls [(no_faults, [word], language), (no_faults, [word], language)] t = ?t1"
      by (simp add: store_once_no_faults insert_or_ignore_again)
    with that in1 show ?thesis
      by (simp add: count_list_one distinct_insert_or_ignore)
  qed
  from fresh twice show ?thesis
    by (simp add: store_calls_distinct store_present_no_faults)
qed

theorem used_words_pairs_unique_witness:
  "distinct [(str ''b'', str ''en'')]
   \<and> distinct (store_calls [(no_faults, [str ''a'', str ''b'', str ''a''], str ''en'')]
        [(str ''b'', str ''en'')])
   \<and> initDB no_faults None = (None, Some [])
   \<and> distinct (store_calls [(no_faults, [str ''a'', str ''b'', str ''a''], str ''en'')] [])
   \<and> (str ''b'', str ''en'') \<in> set [(str ''b'', str ''en'')]
   \<and> storeUsedWords no_faults [str ''b''] (str ''en'') [(str ''b'', str ''en'')]
       = (None, [(str ''b'', str ''en'')])
   \<and> count_list (store_calls [(no_faults, [str ''a''], str ''en''),
        (no_faults, [str ''a''], str ''en'')] []) (str ''a'', str ''en'') = 1"
proof -
  have i: "initDB no_faults None = (None, Some [])"
    by (simp add: initDB_def no_faults_def)
  from used_words_pairs_unique[of "[(str ''b'', str ''en'')]"
      "[(no_faults, [str ''a'', str ''b'', str ''a''], str ''en'')]" no_faults "[]"
      "str ''b''" "str ''en''"]
    used_words_pairs_unique[of "[]" "[]" no_faults "[]" "str ''a''" "str ''en''"] i
  show ?thesis
    by simp
qed

text \<open>
  C8. A \<^verbatim>\<open>storeUsedWords\<close> call that returns an error leaves the committed table as it
  was, and a failing \<^verbatim>\<open>stmt.Exec\<close> anywhere in the batch makes the call return an error;
  a call that returns no error has every word of the batch in the table, beside the
  rows that were there.
\<close>

theorem storeUsedWords_all_or_nothing:
  "(storeUsedWords F words language t = (Some err, t') \<longrightarrow> t' = t)
   \<and> (begin_err F = None \<and> prepare_err F = None \<and> k < length words \<and> exec_err F k = Some e
        \<longrightarrow> (\<exists>err'. storeUsedWords F words language t = (Some err', t)))
   \<and> (storeUsedWords F words language t = (None, t')
        \<longrightarrow> (\<forall>word \<in> set words. (word, language) \<in> set t') \<and> set t \<subseteq> set t')"
proof -
  have mid: "\<exists>err'. storeUsedWords F words language t = (Some err', t)"
    if "begin_err F = None" "prepare_err F = None" "k < length words" "exec_err F k = Some e"
  proof -
    from that(3,4) obtain err' where "exec_loop F 0 words language t = Inl err'"
      using exec_loop_fault[of k words F 0 e language t] by auto
    with that(1,2) show ?thesis
      by (simp add: storeUsedWords_def)
  qed
  have ok: "(\<forall>word \<in> set words. (word, language) \<in> set t') \<and> set t \<subseteq> set t'"
    if "storeUsedWords F words language t = (None, t')"
    using storeUsedWords_success(1)[OF that] by auto
  from mid ok show ?thesis
    by (auto dest: storeUsedWords_failure)
qed

theorem storeUsedWords_all_or_nothing_witness:
  "storeUsedWords (exec_fails_at 1) [str ''a'', str ''b'', str ''c''] (str ''en'')
       [(str ''z'', str ''en'')]
     = (Some (str ''disk I/O error''), [(str ''z'', str ''en'')])
   \<and> begin_err (exec_fails_at 1) = None \<and> prepare_err (exec_fails_at 1) = None
   \<and> (1::nat) < length [str ''a'', str ''b'', str ''c'']
   \<and> exec_err (exec_fails_at 1) 1 = Some (str ''disk I/O error'')
   \<and> storeUsedWords no_faults [str ''a'', str ''b''] (str ''en'') [(str ''z'', str ''en'')]
     = (None, [(str ''z'', str ''en''), (str ''a'', str ''en''), (str ''b'', str ''en'')])
   \<and> set [(str ''z'', str ''en'')]
       \<subseteq> set [(str ''z'', str ''en''), (str ''a'', str ''en''), (str ''b'', str ''en'')]"
proof -
  have f: "storeUsedWords (exec_fails_at 1) [str ''a'', str ''b'', str ''c''] (str ''en'')
       [(str ''z'', str ''en'')]
     = (Some (str ''disk I/O error''), [(str ''z'', str ''en'')])"
    by (simp add: storeUsedWords_def exec_fails_at_def no_faults_def insert_or_ignore_def str_def)
  have s: "storeUsedWords no_faults [str ''a'', str ''b''] (str ''en'') [(str ''z'', str ''en'')]
     = (None, [(str ''z'', str ''en''), (str ''a'', str ''en''), (str ''b'', str ''en'')])"
    by (simp add: storeUsedWords_def no_faults_def insert_or_ignore_def str_def)
  from storeUsedWords_all_or_nothing[of "exec_fails_at 1" "[str ''a'', str ''b'', str ''c'']"
      "str ''en''" "[(str ''z'', str ''en'')]" "str ''disk I/O error''" "[(str ''z'', str ''en'')]"
      1 "str ''disk I/O error''"]
    storeUsedWords_all_or_nothing[of no_faults "[str ''a'', str ''b'']"
      "str ''en''" "[(str ''z'', str ''en'')]" "[]"
      "[(str ''z'', str ''en''), (str ''a'', str ''en''), (str ''b'', str ''en'')]" 0 "[]"] f s
  show ?thesis
    by (simp add: exec_fails_at_def no_faults_def)
qed

section \<open>Properties of the request handler\<close>

lemma Values_Get_absent: "query key = None \<Longrightarrow> Values_Get query key = []"
  by (simp add: Values_Get_def)

lemma Atoi_ten: "Atoi (str ''10'') = Some 10"
  by (simp add: Atoi_def str_def is_digit_def digits_value_def)

lemma Atoi_zero: "Atoi (str ''0'') = Some 0"
  by (simp add: Atoi_def str_def is_digit_def digits_value_def)

lemma request_language_absent: "query (str ''language'') = None \<Longrightarrow> request_language query = str ''en''"
  by (simp add: request_language_def Values_Get_absent)

lemma request_countValue_default:
  assumes "query (str ''count'') = None \<or> Atoi (Values_Get query (str ''count'')) = None"
  shows "request_countValue query = 10"
proof (cases "Values_Get query (str ''count'') = []")
  case True
  then show ?thesis
    by (simp add: request_countValue_def Atoi_ten)
next
  case False
  with assms have "Atoi (Values_Get query (str ''count'')) = None"
    by (auto simp: Values_Get_absent)
  with False show ?thesis
    by (simp add: request_countValue_def)
qed

lemma unknown_language_url:
  "language \<notin> {str ''en'', str ''fr'', str ''de''}
   \<Longrightarrow> map_index randomArticleURLByLanguage language = []"
  by (simp add: map_index_def randomArticleURLByLanguage_def)

text \<open>
  Each failure that the handler looks at ends the request with status 500 and the text
  of the error, and leaves the table as it was.
\<close>

lemma serve_fetch_failure:
  "http_Get (network W) (map_index randomArticleURLByLanguage language) = Inl err
   \<Longrightarrow> serve W language countValue t = Some (Returns (Error err 500, t))"
  by (simp add: serve_def StatusInternalServerError_def)

lemma serve_parse_failure:
  "http_Get (network W) (map_index randomArticleURLByLanguage language) = Inr (body, read_err)
   \<Longrightarrow> parser W body = Inl err
   \<Longrightarrow> serve W language countValue t
       = Some (Returns (Error (str ''failed to parse HTML: '' @ err) 500, t))"
  by (simp add: serve_def StatusInternalServerError_def ExtractWordsFromParagraphs_def)

lemma serve_read_failure:
  "http_Get (network W) (map_index randomArticleURLByLanguage language) = Inr (body, read_err)
   \<Longrightarrow> ExtractWordsFromParagraphs (parser W) (unicode_tables W) body = Inr words
   \<Longrightarrow> getUsedWords (read_faults W) language t = Inl err
   \<Longrightarrow> serve W language countValue t = Some (Returns (Error err 500, t))"
  by (simp add: serve_def StatusInternalServerError_def)

lemma serve_write_failure:
  "http_Get (network W) (map_index randomArticleURLByLanguage language) = Inr (body, read_err)
   \<Longrightarrow> ExtractWordsFromParagraphs (parser W) (unicode_tables W) body = Inr words
   \<Longrightarrow> getUsedWords (read_faults W) language t = Inr usedBefore
   \<Longrightarrow> PickRandomUniqueWords words countValue usedBefore (generator W) = Some (Returns firstNWords)
   \<Longrightarrow> storeUsedWords (write_faults W) firstNWords language t = (Some err, t')
   \<Longrightarrow> serve W language countValue t = Some (Returns (Error err 500, t)) \<and> t' = t"
  by (simp add: serve_def StatusInternalServerError_def storeUsedWords_failure)

text \<open>
  C10. A request without the \<^verbatim>\<open>language\<close> parameter is served for \<^verbatim>\<open>en\<close>; a request
  whose \<^verbatim>\<open>count\<close> parameter is absent or does not parse as a number is served with the
  count 10; a language outside the table of URLs is not rejected: its URL is the empty
  string, the fetch fails, and the answer is status 500 with the error of the fetch.
\<close>

theorem pickHandler_parameter_resolution:
  "(query (str ''language'') = None
      \<longrightarrow> request_language query = str ''en''
        \<and> pickHandler W query t = serve W (str ''en'') (request_countValue query) t)
   \<and> (query (str ''count'') = None \<or> Atoi (Values_Get query (str ''count'')) = None
      \<longrightarrow> request_countValue query = 10
        \<and> pickHandler W query t = serve W (request_language query) 10 t)
   \<and> (request_language query \<notin> {str ''en'', str ''fr'', str ''de''}
      \<longrightarrow> map_index randomArticleURLByLanguage (request_language query) = []
        \<and> pickHandler W query t = Some (Returns (Error unsupported_scheme 500, t)))"
proof -
  have "pickHandler W query t = Some (Returns (Error unsupported_scheme 500, t))"
    if "request_language query \<notin> {str ''en'', str ''fr'', str ''de''}"
  proof -
    from that have "map_index randomArticleURLByLanguage (request_language query) = []"
      by (rule unknown_language_url)
    then have "http_Get (network W) (map_index randomArticleURLByLanguage (request_language query))
        = Inl unsupported_scheme"
      by (simp add: http_Get_def)
    then show ?thesis
      unfolding pickHandler_def by (rule serve_fetch_failure)
  qed
  then show ?thesis
    by (auto simp: pickHandler_def request_language_absent request_countValue_default
        unknown_language_url)
qed

theorem pickHandler_parameter_resolution_witness:
  "request_language Map.empty = str ''en''
   \<and> request_countValue Map.empty = 10
   \<and> Atoi (Values_Get [str ''count'' \<mapsto> [str ''ten'']] (str ''count'')) = None
   \<and> request_countValue [str ''count'' \<mapsto> [str ''ten'']] = 10
   \<and> request_language [str ''language'' \<mapsto> [str ''es'']] = str ''es''
   \<and> map_index randomArticleURLByLanguage (str ''es'') = []
   \<and> pickHandler example_world [str ''language'' \<mapsto> [str ''es'']] []
       = Some (Returns (Error unsupported_scheme 500, []))"
proof -
  have a: "Atoi (Values_Get [str ''count'' \<mapsto> [str ''ten'']] (str ''count'')) = None"
    by (simp add: Values_Get_def Atoi_def str_def is_digit_def)
  have l: "request_language [str ''language'' \<mapsto> [str ''es'']] = str ''es''"
    by (simp add: request_language_def Values_Get_def str_def)
  have u: "str ''es'' \<notin> {str ''en'', str ''fr'', str ''de''}"
    by (simp add: str_def)
  from pickHandler_parameter_resolution[of Map.empty example_world "[]"]
    pickHandler_parameter_resolution[of "[str ''count'' \<mapsto> [str ''ten'']]" example_world "[]"]
    pickHandler_parameter_resolution[of "[str ''language'' \<mapsto> [str ''es'']]" example_world "[]"]
    a l u
  show ?thesis
    by simp
qed

text \<open>
  C9. The claim asks that a failure while reading the fetched response body ends the
  request with an internal error response. In the world where the read of the body
  breaks off with \<^verbatim>\<open>unexpected EOF\<close> after its first bytes, the handler answers with the
  success payload made from those bytes and records its words.
\<close>

theorem pickHandler_truncated_body:
  "http_Get (network truncated_world) (map_index randomArticleURLByLanguage (str ''en''))
     = Inr (truncated_html, Some (str ''unexpected EOF''))
   \<and> pickHandler truncated_world Map.empty []
     = Some (Returns (Encode \<lparr> Language = str ''en'', Words = [str ''hello'', str ''world''] \<rparr>,
                      [(str ''hello'', str ''en''), (str ''world'', str ''en'')]))"
  by code_simp

text \<open>
  C4. With a pool that is not empty and the count 0, the selector returns for no
  sequence of draws, and so does the handler for a request with \<^verbatim>\<open>count=0\<close> once a page
  with at least one paragraph word has been fetched and the used words have been read.
  With a negative count the selector does not loop: it panics.
\<close>

theorem count_zero_never_returns:
  assumes "words \<noteq> []"
  shows "PickRandomUniqueWords words 0 usedBefore rnd = None
       \<and> (n < 0 \<longrightarrow> PickRandomUniqueWords words n usedBefore rnd
                      = Some (Panics (str ''makeslice: cap out of range'')))
       \<and> (Values_Get query (str ''count'') = str ''0''
            \<and> http_Get (network W) (map_index randomArticleURLByLanguage (request_language query))
                = Inr (body, read_err)
            \<and> ExtractWordsFromParagraphs (parser W) (unicode_tables W) body = Inr words
            \<and> getUsedWords (read_faults W) (request_language query) t = Inr usedBefore
          \<longrightarrow> pickHandler W query t = None)"
proof -
  have zero: "PickRandomUniqueWords words 0 used r = None" for used r
    using pick_loop_never[OF assms, of 0 used r] assms
    by (simp add: PickRandomUniqueWords_def)
  have "str ''0'' \<noteq> []"
    by (simp add: str_def)
  then have "request_countValue query = 0" if "Values_Get query (str ''count'') = str ''0''"
    using that by (simp add: request_countValue_def Atoi_zero)
  with zero show ?thesis
    using assms by (auto simp: PickRandomUniqueWords_def pickHandler_def serve_def)
qed

theorem count_zero_never_returns_witness:
  "example_words \<noteq> []
   \<and> PickRandomUniqueWords example_words 0 {} draws_in_turn = None
   \<and> PickRandomUniqueWords example_words (- 1) {} draws_in_turn
       = Some (Panics (str ''makeslice: cap out of range''))
   \<and> Values_Get [str ''count'' \<mapsto> [str ''0'']] (str ''count'') = str ''0''
   \<and> pickHandler example_world [str ''count'' \<mapsto> [str ''0'']] [] = None"
proof -
  have ne: "example_words \<noteq> []"
    by (simp add: example_words_def)
  have c: "Values_Get [str ''count'' \<mapsto> [str ''0'']] (str ''count'') = str ''0''"
    by (simp add: Values_Get_def)
  have l: "request_language [str ''count'' \<mapsto> [str ''0'']] = str ''en''"
    by (simp add: request_language_def Values_Get_def str_def)
  have f: "http_Get (network example_world) (map_index randomArticleURLByLanguage (str ''en''))
      = Inr (example_html, None)"
    by code_simp
  have e: "ExtractWordsFromParagraphs (parser example_world) (unicode_tables example_world)
      example_html = Inr example_words"
    by code_simp
  have g: "getUsedWords (read_faults example_world) (str ''en'') [] = Inr {}"
    by (simp add: getUsedWords_def example_world_def no_faults_def)
  from count_zero_never_returns[OF ne, of "{}" draws_in_turn "- 1"
      "[str ''count'' \<mapsto> [str ''0'']]" example_world example_html None "[]"] ne c l f e g
  show ?thesis
    by simp
qed

theorem negative_count_panics:
  "[str ''a''] \<noteq> [] \<and> (- 1 :: int) \<le> 0
   \<and> PickRandomUniqueWords [str ''a''] (- 1) {} draws_in_turn
       = Some (Panics (str ''makeslice: cap out of range''))
   \<and> PickRandomUniqueWords [str ''a''] (- 1) {} draws_in_turn \<noteq> None"
  by (simp add: PickRandomUniqueWords_def)

end
